theory Spec2Isabelle
  imports Main "HOL-Library.Signed_Division"
begin

section \<open>Terms\<close>

text \<open>
  The checker of \<^verbatim>\<open>src/sat/smt/tseitin_proof_checker.cpp\<close> works on hash-consed terms
  of the AST manager: two pointers are equal exactly when the terms are structurally
  equal, so pointer comparison \<^verbatim>\<open>a == b\<close> is HOL equality. A term is an application
  tagged with one of the seven connectives the checker recognises, or any other
  application (\<open>Atom\<close>: an uninterpreted constant or function, a theory atom), which
  carries its name, its sort and its children.
\<close>

datatype expr_sort = Bool_sort | Uninterp_sort nat

datatype expr =
    Atom nat expr_sort "expr list"
  | Not_e expr
  | And_e "expr list"
  | Or_e "expr list"
  | Eq_e expr expr
  | Ite_e expr expr expr
  | Implies_e expr expr
  | Xor_e "expr list"

text \<open>The children of an application, in order: what \<^verbatim>\<open>for (expr* arg : *to_app(e))\<close> visits.\<close>

fun get_args :: "expr \<Rightarrow> expr list" where
  "get_args (Atom n s args) = args"
| "get_args (Not_e a) = [a]"
| "get_args (And_e args) = args"
| "get_args (Or_e args) = args"
| "get_args (Eq_e x y) = [x, y]"
| "get_args (Ite_e x y z) = [x, y, z]"
| "get_args (Implies_e x y) = [x, y]"
| "get_args (Xor_e args) = args"

text \<open>
  Modelled from the spec: \<^verbatim>\<open>get_depth\<close> is declared in \<^verbatim>\<open>ast/ast.h\<close>, which is not
  among the sources. The spec (section 3) describes it as the cached length of the longest
  root-to-leaf path; a leaf has depth 1, so every term has a positive depth.
\<close>

fun get_depth :: "expr \<Rightarrow> nat" where
  "get_depth (Atom n s args) = Suc (fold max (map get_depth args) 0)"
| "get_depth (Not_e a) = Suc (get_depth a)"
| "get_depth (And_e args) = Suc (fold max (map get_depth args) 0)"
| "get_depth (Or_e args) = Suc (fold max (map get_depth args) 0)"
| "get_depth (Eq_e x y) = Suc (max (get_depth x) (get_depth y))"
| "get_depth (Ite_e x y z) = Suc (max (get_depth x) (max (get_depth y) (get_depth z)))"
| "get_depth (Implies_e x y) = Suc (max (get_depth x) (get_depth y))"
| "get_depth (Xor_e args) = Suc (fold max (map get_depth args) 0)"

text \<open>
  Modelled from the spec: \<^verbatim>\<open>ast_manager::is_bool\<close> (\<^verbatim>\<open>ast/ast.h\<close>, not among the sources)
  tests whether the sort of a term is Boolean. The connectives are Boolean, an if-then-else
  has the sort of its branches, any other application has the sort it carries.
\<close>

fun is_bool :: "expr \<Rightarrow> bool" where
  "is_bool (Atom n s args) = (s = Bool_sort)"
| "is_bool (Ite_e x y z) = is_bool y"
| "is_bool _ = True"

fun is_not :: "expr \<Rightarrow> bool" where
  "is_not (Not_e a) = True"
| "is_not _ = False"

fun is_and :: "expr \<Rightarrow> bool" where
  "is_and (And_e args) = True"
| "is_and _ = False"

fun is_or :: "expr \<Rightarrow> bool" where
  "is_or (Or_e args) = True"
| "is_or _ = False"

fun is_xor :: "expr \<Rightarrow> bool" where
  "is_xor (Xor_e args) = True"
| "is_xor _ = False"

section \<open>The mark store\<close>

text \<open>
  Modelled from the spec: the marking helpers \<^verbatim>\<open>mark\<close>, \<^verbatim>\<open>complement_mark\<close>,
  \<^verbatim>\<open>is_marked\<close>, \<^verbatim>\<open>is_complement\<close> and the guard \<^verbatim>\<open>scoped_mark\<close> are declared in
  \<^verbatim>\<open>sat/smt/tseitin_proof_checker.h\<close>, which is not among the sources. Section 4.2 of the
  spec gives the store two channels per term (unset, positive, negative, both):
  \<^item> \<open>mark t\<close> records \<open>t\<close> present, on the positive channel only;
  \<^item> \<open>complement_mark t\<close> records \<open>t\<close> present and attests its complement, so that
    afterwards \<open>is_marked t\<close> and \<open>is_complement (negate t)\<close> hold, where \<open>negate\<close> adds
    or strips one negation;
  \<^item> \<open>is_marked\<close> and \<open>is_complement\<close> are false for a term never seen;
  \<^item> opening a scope while one is open is fatal; closing a scope discards every entry.
\<close>

record mark_store =
  m_mark :: "expr set"
  m_nmark :: "expr set"
  scope_open :: bool

text \<open>
  The two ways a call could fail instead of returning a verdict: a scope opened while one is
  open (the fatal condition of sections 4.2 and 7 of the spec), and the read of
  \<^verbatim>\<open>m.is_not(main_expr)\<close> at line 50 while \<^verbatim>\<open>main_expr\<close> is still the null pointer.
\<close>

datatype error = Scope_already_open | Null_main_expr

type_synonym 'a marking = "mark_store \<Rightarrow> error + ('a \<times> mark_store)"

fun negate :: "expr \<Rightarrow> expr" where
  "negate (Not_e a) = a"
| "negate a = Not_e a"

definition mark :: "expr \<Rightarrow> mark_store \<Rightarrow> mark_store" where
  "mark a s = s\<lparr>m_mark := insert a (m_mark s)\<rparr>"

definition complement_mark :: "expr \<Rightarrow> mark_store \<Rightarrow> mark_store" where
  "complement_mark a s =
     s\<lparr>m_mark := insert a (m_mark s), m_nmark := insert (negate a) (m_nmark s)\<rparr>"

definition is_marked :: "mark_store \<Rightarrow> expr \<Rightarrow> bool" where
  "is_marked s a = (a \<in> m_mark s)"

definition is_complement :: "mark_store \<Rightarrow> expr \<Rightarrow> bool" where
  "is_complement s a = (a \<in> m_nmark s)"

definition open_scope :: "mark_store \<Rightarrow> error + mark_store" where
  "open_scope s = (if scope_open s then Inl Scope_already_open else Inr (s\<lparr>scope_open := True\<rparr>))"

definition close_scope :: "mark_store \<Rightarrow> mark_store" where
  "close_scope s = \<lparr>m_mark = {}, m_nmark = {}, scope_open = False\<rparr>"

text \<open>The store between two calls: nothing marked, no scope open.\<close>

definition clean_store :: mark_store where
  "clean_store = \<lparr>m_mark = {}, m_nmark = {}, scope_open = False\<rparr>"

text \<open>The store right after a scope has been opened on the clean store.\<close>

definition fresh_scope :: mark_store where
  "fresh_scope = \<lparr>m_mark = {}, m_nmark = {}, scope_open = True\<rparr>"

text \<open>
  One guarded block of \<^verbatim>\<open>check\<close>:
  \<^verbatim>\<open>{ scoped_mark sm(*this); for (expr* arg : *jst) mk(arg); body }\<close>.
  The body only reads the store; it yields \<open>Some v\<close> when it returns \<open>v\<close> from \<^verbatim>\<open>check\<close>
  and \<open>None\<close> when control leaves the block at its closing brace. The guard closes the
  scope on both ways out.
\<close>

definition scoped_mark ::
  "(expr \<Rightarrow> mark_store \<Rightarrow> mark_store) \<Rightarrow> expr list \<Rightarrow> (mark_store \<Rightarrow> bool option)
     \<Rightarrow> bool option marking" where
  "scoped_mark mk jst body s =
     (case open_scope s of
        Inl e \<Rightarrow> Inl e
      | Inr s1 \<Rightarrow> (let s2 = fold mk jst s1 in Inr (body s2, close_scope s2)))"

text \<open>A block whose guard is false: control passes on, the store is untouched.\<close>

definition skip :: "bool option marking" where
  "skip s = Inr (None, s)"

text \<open>Blocks in sequence: the first one that returns ends the call.\<close>

fun seq_blocks :: "bool option marking list \<Rightarrow> bool option marking" where
  "seq_blocks [] s = Inr (None, s)"
| "seq_blocks (b # bs) s =
     (case b s of
        Inl e \<Rightarrow> Inl e
      | Inr (Some v, s') \<Rightarrow> Inr (Some v, s')
      | Inr (None, s') \<Rightarrow> seq_blocks bs s')"

section \<open>The equivalence test\<close>

text \<open>
  \<^verbatim>\<open>proof_checker::equiv\<close>, lines 234 to 241 (\<open>equiv\<close> is a constant of HOL already,
  hence the suffix).
\<close>

fun equiv_expr :: "expr \<Rightarrow> expr \<Rightarrow> bool" where
  "equiv_expr a b =
     (if a = b then True
      else (case (a, b) of
              (Eq_e x y, Eq_e z u) \<Rightarrow> x = u \<and> y = z
            | _ \<Rightarrow> False))"

section \<open>Selection of the main expression\<close>

text \<open>
  The loop of lines 42 to 52. The second test of the loop body is not an \<^verbatim>\<open>else\<close> branch;
  it reads \<^verbatim>\<open>m.is_not(main_expr)\<close> only when the depths are equal, and that read
  dereferences \<^verbatim>\<open>main_expr\<close>, which is a null pointer until a first literal is taken.
\<close>

fun select_loop :: "expr list \<Rightarrow> expr option \<times> nat \<Rightarrow> error + (expr option \<times> nat)" where
  "select_loop [] st = Inr st"
| "select_loop (arg # rest) (main_expr, max_depth) =
     (let arg_depth = get_depth arg;
          (main_expr1, max_depth1) =
             (if arg_depth > max_depth then (Some arg, arg_depth) else (main_expr, max_depth))
      in if arg_depth = max_depth1 then
           (case main_expr1 of
              None \<Rightarrow> Inl Null_main_expr
            | Some e \<Rightarrow> select_loop rest (if is_not e then Some arg else main_expr1, max_depth1))
         else select_loop rest (main_expr1, max_depth1))"

definition select_main :: "expr list \<Rightarrow> error + expr option" where
  "select_main jst =
     (case select_loop jst (None, 0) of Inl e \<Rightarrow> Inl e | Inr (main_expr, max_depth) \<Rightarrow> Inr main_expr)"

section \<open>The rules\<close>

text \<open>Lines 61 to 71.\<close>

definition and_block :: "expr \<Rightarrow> expr list \<Rightarrow> bool option marking" where
  "and_block main_expr jst =
     (if is_and main_expr then
        scoped_mark complement_mark jst
          (\<lambda>s. Some (list_all (is_complement s) (get_args main_expr)))
      else skip)"

text \<open>Lines 74 to 82.\<close>

definition or_block :: "expr \<Rightarrow> expr list \<Rightarrow> bool option marking" where
  "or_block main_expr jst =
     (if is_or main_expr then
        scoped_mark complement_mark jst
          (\<lambda>s. Some (list_ex (is_complement s) (get_args main_expr)))
      else skip)"

text \<open>Lines 86 to 94.\<close>

definition eq_bool_block :: "expr \<Rightarrow> expr list \<Rightarrow> bool option marking" where
  "eq_bool_block main_expr jst =
     (case main_expr of
        Eq_e x y \<Rightarrow>
          if is_bool x then
            scoped_mark complement_mark jst
              (\<lambda>s. if is_marked s x \<and> is_marked s y then Some True
                   else if is_complement s x \<and> is_complement s y then Some True
                   else None)
          else skip
      | _ \<Rightarrow> skip)"

text \<open>Lines 96 to 104.\<close>

definition eq_ite_block :: "expr \<Rightarrow> expr list \<Rightarrow> bool option marking" where
  "eq_ite_block main_expr jst =
     (case main_expr of
        Eq_e (Ite_e z u v) y \<Rightarrow>
          scoped_mark complement_mark jst
            (\<lambda>s. if is_marked s z \<and> equiv_expr y v then Some True
                 else if is_complement s z \<and> equiv_expr y u then Some True
                 else None)
      | _ \<Rightarrow> skip)"

text \<open>Lines 109 to 120.\<close>

definition ite_block :: "expr \<Rightarrow> expr list \<Rightarrow> bool option marking" where
  "ite_block main_expr jst =
     (case main_expr of
        Ite_e x y z \<Rightarrow>
          if is_bool z then
            scoped_mark complement_mark jst
              (\<lambda>s. if is_marked s x \<and> is_complement s z then Some True
                   else if is_complement s x \<and> is_complement s y then Some True
                   else if is_complement s y \<and> is_complement s z then Some True
                   else None)
          else skip
      | _ \<Rightarrow> skip)"

text \<open>Lines 125 to 133.\<close>

definition implies_block :: "expr \<Rightarrow> expr list \<Rightarrow> bool option marking" where
  "implies_block main_expr jst =
     (case main_expr of
        Implies_e x y \<Rightarrow>
          scoped_mark complement_mark jst
            (\<lambda>s. if is_marked s x then Some True
                 else if is_complement s y then Some True
                 else None)
      | _ \<Rightarrow> skip)"

text \<open>
  The counting loop of lines 141 to 145 and 218 to 222. The counter is a C \<^verbatim>\<open>int\<close>; it
  stays within the number of arguments, so it is modelled as an unbounded integer, and the
  test \<^verbatim>\<open>(parity % 2) == 0\<close> uses the truncating remainder of C.
\<close>

definition count_parity :: "mark_store \<Rightarrow> expr list \<Rightarrow> int \<Rightarrow> int" where
  "count_parity s args parity0 =
     fold (\<lambda>arg parity.
             if is_marked s arg then parity + 1
             else if is_complement s arg then parity - 1
             else parity) args parity0"

text \<open>Lines 136 to 148.\<close>

definition xor_block :: "expr \<Rightarrow> expr list \<Rightarrow> bool option marking" where
  "xor_block main_expr jst =
     (if is_xor main_expr then
        scoped_mark complement_mark jst
          (\<lambda>s. if count_parity s (get_args main_expr) 0 smod 2 = 0 then Some True else None)
      else skip)"

text \<open>Lines 153 to 155: no scope is opened, the store is not read.\<close>

definition not_equiv_block :: "expr \<Rightarrow> expr list \<Rightarrow> bool option marking" where
  "not_equiv_block a jst s = Inr (if list_ex (equiv_expr a) jst then Some True else None, s)"

text \<open>Lines 158 to 165.\<close>

definition not_and_block :: "expr \<Rightarrow> expr list \<Rightarrow> bool option marking" where
  "not_and_block a jst =
     (if is_and a then
        scoped_mark mark jst
          (\<lambda>s. if list_ex (is_marked s) (get_args a) then Some True else None)
      else skip)"

text \<open>Lines 168 to 176.\<close>

definition not_or_block :: "expr \<Rightarrow> expr list \<Rightarrow> bool option marking" where
  "not_or_block a jst =
     (if is_or a then
        scoped_mark mark jst
          (\<lambda>s. Some (list_all (is_marked s) (get_args a)))
      else skip)"

text \<open>Lines 179 to 187.\<close>

definition not_eq_block :: "expr \<Rightarrow> expr list \<Rightarrow> bool option marking" where
  "not_eq_block a jst =
     (case a of
        Eq_e x y \<Rightarrow>
          if is_bool x then
            scoped_mark complement_mark jst
              (\<lambda>s. if is_marked s x \<and> is_complement s y then Some True
                   else if is_marked s y \<and> is_complement s x then Some True
                   else None)
          else skip
      | _ \<Rightarrow> skip)"

text \<open>Lines 191 to 201.\<close>

definition not_ite_block :: "expr \<Rightarrow> expr list \<Rightarrow> bool option marking" where
  "not_ite_block a jst =
     (case a of
        Ite_e x y z \<Rightarrow>
          if is_bool z then
            scoped_mark complement_mark jst
              (\<lambda>s. if is_complement s x \<and> is_marked s y then Some True
                   else if is_marked s x \<and> is_marked s z then Some True
                   else if is_marked s y \<and> is_marked s z then Some True
                   else None)
          else skip
      | _ \<Rightarrow> skip)"

text \<open>Lines 204 to 210.\<close>

definition not_implies_block :: "expr \<Rightarrow> expr list \<Rightarrow> bool option marking" where
  "not_implies_block a jst =
     (case a of
        Implies_e x y \<Rightarrow>
          scoped_mark complement_mark jst
            (\<lambda>s. if is_complement s x \<and> is_marked s y then Some True else None)
      | _ \<Rightarrow> skip)"

text \<open>
  Lines 213 to 225. The guard tests the negated term \<open>a\<close>, the counting loop of line 218
  visits the arguments of \<^verbatim>\<open>main_expr\<close>, the negation itself.
\<close>

definition not_xor_block :: "expr \<Rightarrow> expr \<Rightarrow> expr list \<Rightarrow> bool option marking" where
  "not_xor_block main_expr a jst =
     (if is_xor a then
        scoped_mark complement_mark jst
          (\<lambda>s. if count_parity s (get_args main_expr) 1 smod 2 = 0 then Some True else None)
      else skip)"

text \<open>Lines 150 to 230.\<close>

definition not_block :: "expr \<Rightarrow> expr list \<Rightarrow> bool option marking" where
  "not_block main_expr jst =
     (case main_expr of
        Not_e a \<Rightarrow>
          seq_blocks
            [not_equiv_block a jst,
             not_and_block a jst,
             not_or_block a jst,
             not_eq_block a jst,
             not_ite_block a jst,
             not_implies_block a jst,
             not_xor_block main_expr a jst]
      | _ \<Rightarrow> skip)"

section \<open>The checker\<close>

text \<open>\<^verbatim>\<open>proof_checker::clause\<close>, lines 35 to 39: the literals of the justification, in order.\<close>

definition clause :: "expr list \<Rightarrow> expr list" where
  "clause jst = [] @ jst"

text \<open>
  \<^verbatim>\<open>proof_checker::check\<close>, lines 41 to 232. A justification is read through its argument
  list only. When no block returns, line 231 returns false.
\<close>

definition check :: "expr list \<Rightarrow> bool marking" where
  "check jst s =
     (case select_main jst of
        Inl e \<Rightarrow> Inl e
      | Inr None \<Rightarrow> Inr (False, s)
      | Inr (Some main_expr) \<Rightarrow>
          (case seq_blocks
                  [and_block main_expr jst,
                   or_block main_expr jst,
                   eq_bool_block main_expr jst,
                   eq_ite_block main_expr jst,
                   ite_block main_expr jst,
                   implies_block main_expr jst,
                   xor_block main_expr jst,
                   not_block main_expr jst] s of
             Inl e \<Rightarrow> Inl e
           | Inr (Some v, s') \<Rightarrow> Inr (v, s')
           | Inr (None, s') \<Rightarrow> Inr (False, s')))"

section \<open>Terms of the examples\<close>

text \<open>Four Boolean constants and three constants of another sort.\<close>

abbreviation atom_a :: expr where "atom_a \<equiv> Atom 0 Bool_sort []"
abbreviation atom_b :: expr where "atom_b \<equiv> Atom 1 Bool_sort []"
abbreviation atom_c :: expr where "atom_c \<equiv> Atom 2 Bool_sort []"
abbreviation atom_d :: expr where "atom_d \<equiv> Atom 3 Bool_sort []"
abbreviation term_u :: expr where "term_u \<equiv> Atom 4 (Uninterp_sort 0) []"
abbreviation term_v :: expr where "term_v \<equiv> Atom 5 (Uninterp_sort 0) []"
abbreviation term_w :: expr where "term_w \<equiv> Atom 6 (Uninterp_sort 0) []"

section \<open>Lemmas on the store and on selection\<close>

lemma get_depth_pos: "0 < get_depth e"
  by (cases e) simp_all

text \<open>The postcondition that section 4.2 of the spec gives for \<^verbatim>\<open>complement_mark\<close>.\<close>

lemma complement_mark_attests:
  "is_marked (complement_mark l s) l \<and> is_complement (complement_mark l s) (negate l)"
  by (simp add: is_marked_def is_complement_def complement_mark_def)

lemma m_mark_fold_complement_mark:
  "m_mark (fold complement_mark jst s) = set jst \<union> m_mark s"
  by (induction jst arbitrary: s) (auto simp: complement_mark_def)

lemma m_nmark_fold_complement_mark:
  "m_nmark (fold complement_mark jst s) = negate ` set jst \<union> m_nmark s"
  by (induction jst arbitrary: s) (auto simp: complement_mark_def)

lemma m_mark_fold_mark: "m_mark (fold mark jst s) = set jst \<union> m_mark s"
  by (induction jst arbitrary: s) (auto simp: mark_def)

lemma m_nmark_fold_mark: "m_nmark (fold mark jst s) = m_nmark s"
  by (induction jst arbitrary: s) (auto simp: mark_def)

lemma is_marked_complement_marked:
  "is_marked (fold complement_mark jst fresh_scope) e \<longleftrightarrow> e \<in> set jst"
  by (simp add: is_marked_def m_mark_fold_complement_mark fresh_scope_def)

lemma is_complement_complement_marked:
  "is_complement (fold complement_mark jst fresh_scope) e \<longleftrightarrow> e \<in> negate ` set jst"
  by (simp add: is_complement_def m_nmark_fold_complement_mark fresh_scope_def)

lemma is_marked_marked:
  "is_marked (fold mark jst fresh_scope) e \<longleftrightarrow> e \<in> set jst"
  by (simp add: is_marked_def m_mark_fold_mark fresh_scope_def)

lemma is_complement_marked:
  "\<not> is_complement (fold mark jst fresh_scope) e"
  by (simp add: is_complement_def m_nmark_fold_mark fresh_scope_def)

lemmas marked_simps =
  is_marked_complement_marked is_complement_complement_marked is_marked_marked is_complement_marked

lemma scoped_mark_clean:
  "scoped_mark mk jst body clean_store = Inr (body (fold mk jst fresh_scope), clean_store)"
  by (simp add: scoped_mark_def open_scope_def clean_store_def fresh_scope_def close_scope_def)

lemma scoped_mark_closes:
  "\<not> scope_open s \<Longrightarrow>
   scoped_mark mk jst body s = Inr (body (fold mk jst (s\<lparr>scope_open := True\<rparr>)), clean_store)"
  by (simp add: scoped_mark_def open_scope_def close_scope_def clean_store_def)

lemma skip_clean: "skip clean_store = Inr (None, clean_store)"
  by (simp add: skip_def)

lemma select_loop_Cons:
  "select_loop (arg # rest) (m, d) =
     (if d < get_depth arg then select_loop rest (Some arg, get_depth arg)
      else if get_depth arg = d then
        (case m of
           None \<Rightarrow> Inl Null_main_expr
         | Some e \<Rightarrow> select_loop rest (if is_not e then Some arg else m, d))
      else select_loop rest (m, d))"
  by (simp add: Let_def)

declare select_loop.simps(2) [simp del]

lemmas eval_simps =
  select_main_def select_loop_Cons is_marked_def is_complement_def complement_mark_def mark_def
  fresh_scope_def

lemma select_loop_append:
  "select_loop (xs @ ys) st =
     (case select_loop xs st of Inl e \<Rightarrow> Inl e | Inr st' \<Rightarrow> select_loop ys st')"
proof (induction xs arbitrary: st)
  case Nil
  then show ?case by simp
next
  case (Cons x xs)
  obtain m d where st: "st = (m, d)" by (cases st)
  show ?case
    unfolding st append_Cons select_loop_Cons
    by (simp add: Cons.IH split: option.splits)
qed

text \<open>Invariant of the loop: the held literal has the held depth.\<close>

lemma select_loop_inv:
  assumes "case m of None \<Rightarrow> d = 0 \<and> S = {} | Some e \<Rightarrow> get_depth e = d \<and> e \<in> S \<and> (\<forall>l\<in>S. get_depth l \<le> d)"
  shows "\<exists>m' d'. select_loop xs (m, d) = Inr (m', d') \<and>
           (case m' of
              None \<Rightarrow> d' = 0 \<and> xs = [] \<and> m = None
            | Some e \<Rightarrow> get_depth e = d' \<and> e \<in> S \<union> set xs \<and> (\<forall>l\<in>S \<union> set xs. get_depth l \<le> d'))"
  using assms
proof (induction xs arbitrary: m d S)
  case Nil
  then show ?case by (auto split: option.splits)
next
  case (Cons x xs)
  have pos: "0 < get_depth x" by (rule get_depth_pos)
  consider (gt) "d < get_depth x" | (eq) "get_depth x = d" | (lt) "get_depth x < d"
    by linarith
  then show ?case
  proof cases
    case gt
    have "case Some x of None \<Rightarrow> get_depth x = 0 \<and> insert x S = {}
          | Some e \<Rightarrow> get_depth e = get_depth x \<and> e \<in> insert x S \<and> (\<forall>l\<in>insert x S. get_depth l \<le> get_depth x)"
      using Cons.prems gt by (auto split: option.splits)
    from Cons.IH [OF this] gt show ?thesis
      by (auto simp: select_loop_Cons split: option.splits)
  next
    case eq
    with pos Cons.prems obtain e where e: "m = Some e" "get_depth e = d" "e \<in> S" "\<forall>l\<in>S. get_depth l \<le> d"
      by (auto split: option.splits)
    let ?m = "if is_not e then Some x else m"
    have "case ?m of None \<Rightarrow> d = 0 \<and> insert x S = {}
          | Some e \<Rightarrow> get_depth e = d \<and> e \<in> insert x S \<and> (\<forall>l\<in>insert x S. get_depth l \<le> d)"
      using e eq by auto
    from Cons.IH [OF this] e eq show ?thesis
      by (auto simp: select_loop_Cons split: option.splits)
  next
    case lt
    with Cons.prems obtain e where e: "m = Some e" "get_depth e = d" "e \<in> S" "\<forall>l\<in>S. get_depth l \<le> d"
      by (auto split: option.splits)
    have "case m of None \<Rightarrow> d = 0 \<and> insert x S = {}
          | Some e \<Rightarrow> get_depth e = d \<and> e \<in> insert x S \<and> (\<forall>l\<in>insert x S. get_depth l \<le> d)"
      using e lt by auto
    from Cons.IH [OF this] e lt show ?thesis
      by (auto simp: select_loop_Cons split: option.splits)
  qed
qed

lemma select_main_total:
  "\<exists>m. select_main jst = Inr m"
  using select_loop_inv [where m = None and d = 0 and S = "{}" and xs = jst]
  by (auto simp: select_main_def)

lemma select_main_Some:
  assumes "select_main jst = Inr (Some r)"
  shows "r \<in> set jst \<and> (\<forall>l\<in>set jst. get_depth l \<le> get_depth r) \<and> select_loop jst (None, 0) = Inr (Some r, get_depth r)"
  using select_loop_inv [where m = None and d = 0 and S = "{}" and xs = jst] assms
  by (auto simp: select_main_def)

lemma select_main_nonempty:
  assumes "jst \<noteq> []"
  shows "\<exists>r. select_main jst = Inr (Some r)"
  using select_loop_inv [where m = None and d = 0 and S = "{}" and xs = jst] assms
  by (auto simp: select_main_def split: option.splits)

lemma select_loop_keep:
  assumes "\<not> is_not r" "\<forall>l\<in>set ys. get_depth l \<le> get_depth r"
  shows "select_loop ys (Some r, get_depth r) = Inr (Some r, get_depth r)"
  using assms by (induction ys) (auto simp: select_loop_Cons)

lemma select_main_first_nonneg:
  assumes max: "\<forall>l\<in>set (xs @ r # ys). get_depth l \<le> get_depth r"
    and r: "\<not> is_not r"
    and before: "\<forall>l\<in>set xs. get_depth l = get_depth r \<longrightarrow> is_not l"
  shows "select_main (xs @ r # ys) = Inr (Some r)"
proof -
  obtain m d where xs: "select_loop xs (None, 0) = Inr (m, d)"
    and inv: "case m of None \<Rightarrow> d = 0 \<and> xs = [] \<and> (None::expr option) = None
              | Some e \<Rightarrow> get_depth e = d \<and> e \<in> {} \<union> set xs \<and> (\<forall>l\<in>{} \<union> set xs. get_depth l \<le> d)"
    using select_loop_inv [where m = None and d = 0 and S = "{}" and xs = xs] by auto
  have step: "select_loop (r # ys) (m, d) = select_loop ys (Some r, get_depth r)"
  proof (cases m)
    case None
    with inv have "d = 0" by simp
    with get_depth_pos [of r] show ?thesis by (simp add: select_loop_Cons)
  next
    case (Some e)
    with inv have e: "get_depth e = d" "e \<in> set xs" by auto
    with max have "d \<le> get_depth r" by auto
    moreover have "is_not e" if "get_depth r = d" using that e before by auto
    ultimately show ?thesis using Some by (auto simp: select_loop_Cons)
  qed
  have "select_loop ys (Some r, get_depth r) = Inr (Some r, get_depth r)"
    using max r by (intro select_loop_keep) auto
  with step xs show ?thesis
    by (simp add: select_main_def select_loop_append)
qed

lemma select_main_only_nonneg:
  assumes mem: "r \<in> set jst" and r: "\<not> is_not r"
    and max: "\<forall>l\<in>set jst. get_depth l \<le> get_depth r"
    and others: "\<forall>l\<in>set jst. l \<noteq> r \<longrightarrow> is_not l \<or> get_depth l < get_depth r"
  shows "select_main jst = Inr (Some r)"
proof -
  from split_list_first [OF mem] obtain xs ys where jst: "jst = xs @ r # ys" and "r \<notin> set xs"
    by blast
  then have "\<forall>l\<in>set xs. get_depth l = get_depth r \<longrightarrow> is_not l"
    using others by fastforce
  with max r show ?thesis
    unfolding jst by (intro select_main_first_nonneg) auto
qed

lemma fold_max_ge:
  "x \<in> set xs \<Longrightarrow> f x \<le> fold max (map f xs) (d::nat)"
proof (induction xs arbitrary: d)
  case Nil
  then show ?case by simp
next
  case (Cons y ys)
  have mono: "d \<le> fold max (map f ys) d" for d
    by (induction ys arbitrary: d) (auto intro: order_trans [OF max.cobounded2])
  show ?case
  proof (cases "x = y")
    case True
    have "f y \<le> max (f y) d" by simp
    also have "\<dots> \<le> fold max (map f ys) (max (f y) d)" by (rule mono)
    finally show ?thesis using True by simp
  next
    case False
    with Cons.prems have "x \<in> set ys" by simp
    from Cons.IH [OF this] show ?thesis by simp
  qed
qed

lemma get_depth_args:
  "a \<in> set (get_args e) \<Longrightarrow> get_depth a < get_depth e"
  by (cases e) (auto simp: less_Suc_eq_le fold_max_ge)

lemma select_main_args_clause:
  assumes mem: "r \<in> set jst" and r: "\<not> is_not r"
    and lits: "\<forall>l\<in>set jst. l = r \<or> l \<in> set (get_args r) \<or> (\<exists>a\<in>set (get_args r). l = Not_e a)"
  shows "select_main jst = Inr (Some r)"
proof (rule select_main_only_nonneg [OF mem r])
  show "\<forall>l\<in>set jst. get_depth l \<le> get_depth r"
  proof
    fix l assume "l \<in> set jst"
    with lits consider "l = r" | "l \<in> set (get_args r)" | a where "a \<in> set (get_args r)" "l = Not_e a"
      by blast
    then show "get_depth l \<le> get_depth r"
    proof cases
      case 1 then show ?thesis by simp
    next
      case 2 then show ?thesis using get_depth_args [of l r] by simp
    next
      case 3 then show ?thesis using get_depth_args [of a r] by simp
    qed
  qed
  show "\<forall>l\<in>set jst. l \<noteq> r \<longrightarrow> is_not l \<or> get_depth l < get_depth r"
  proof
    fix l assume "l \<in> set jst"
    with lits consider "l = r" | "l \<in> set (get_args r)" | a where "a \<in> set (get_args r)" "l = Not_e a"
      by blast
    then show "l \<noteq> r \<longrightarrow> is_not l \<or> get_depth l < get_depth r"
    proof cases
      case 1 then show ?thesis by simp
    next
      case 2 then show ?thesis using get_depth_args [of l r] by simp
    next
      case 3 then show ?thesis by simp
    qed
  qed
qed

lemmas block_defs =
  and_block_def or_block_def eq_bool_block_def eq_ite_block_def ite_block_def
  implies_block_def xor_block_def not_block_def not_equiv_block_def not_and_block_def
  not_or_block_def not_eq_block_def not_ite_block_def not_implies_block_def not_xor_block_def

lemma check_None:
  "select_main jst = Inr None \<Longrightarrow> check jst s = Inr (False, s)"
  by (simp add: check_def)

lemma check_Atom:
  "select_main jst = Inr (Some (Atom n srt args)) \<Longrightarrow> check jst s = Inr (False, s)"
  by (simp add: check_def block_defs skip_def)

lemma check_And:
  "select_main jst = Inr (Some (And_e args)) \<Longrightarrow>
   check jst clean_store =
     Inr (list_all (is_complement (fold complement_mark jst fresh_scope)) args, clean_store)"
  by (simp add: check_def block_defs scoped_mark_clean)

lemma check_Or:
  "select_main jst = Inr (Some (Or_e args)) \<Longrightarrow>
   check jst clean_store =
     Inr (list_ex (is_complement (fold complement_mark jst fresh_scope)) args, clean_store)"
  by (simp add: check_def block_defs scoped_mark_clean skip_clean)

lemma check_Eq:
  "select_main jst = Inr (Some (Eq_e x y)) \<Longrightarrow>
   check jst clean_store =
     (let s = fold complement_mark jst fresh_scope in
      Inr (is_bool x \<and> (is_marked s x \<and> is_marked s y \<or> is_complement s x \<and> is_complement s y) \<or>
           (case x of
              Ite_e z u v \<Rightarrow> is_marked s z \<and> equiv_expr y v \<or> is_complement s z \<and> equiv_expr y u
            | _ \<Rightarrow> False), clean_store))"
  by (cases x) (auto simp add: check_def block_defs scoped_mark_clean skip_clean Let_def simp del: equiv_expr.simps)

lemma check_Ite:
  "select_main jst = Inr (Some (Ite_e x y z)) \<Longrightarrow>
   check jst clean_store =
     (let s = fold complement_mark jst fresh_scope in
      Inr (is_bool z \<and> (is_marked s x \<and> is_complement s z \<or> is_complement s x \<and> is_complement s y \<or>
                         is_complement s y \<and> is_complement s z), clean_store))"
  by (auto simp add: check_def block_defs scoped_mark_clean skip_clean Let_def)

lemma check_Implies:
  "select_main jst = Inr (Some (Implies_e x y)) \<Longrightarrow>
   check jst clean_store =
     (let s = fold complement_mark jst fresh_scope in
      Inr (is_marked s x \<or> is_complement s y, clean_store))"
  by (auto simp add: check_def block_defs scoped_mark_clean skip_clean Let_def)

lemma check_Xor:
  "select_main jst = Inr (Some (Xor_e args)) \<Longrightarrow>
   check jst clean_store =
     Inr (count_parity (fold complement_mark jst fresh_scope) args 0 smod 2 = 0, clean_store)"
  by (auto simp add: check_def block_defs scoped_mark_clean skip_clean Let_def)

lemma check_Not:
  "select_main jst = Inr (Some (Not_e a)) \<Longrightarrow>
   check jst clean_store =
     (let s = fold complement_mark jst fresh_scope; p = fold mark jst fresh_scope in
      Inr (list_ex (equiv_expr a) jst \<or>
           (case a of
              And_e bs \<Rightarrow> list_ex (is_marked p) bs
            | Or_e bs \<Rightarrow> list_all (is_marked p) bs
            | Eq_e x y \<Rightarrow> is_bool x \<and> (is_marked s x \<and> is_complement s y \<or> is_marked s y \<and> is_complement s x)
            | Ite_e x y z \<Rightarrow> is_bool z \<and> (is_complement s x \<and> is_marked s y \<or> is_marked s x \<and> is_marked s z \<or>
                                            is_marked s y \<and> is_marked s z)
            | Implies_e x y \<Rightarrow> is_complement s x \<and> is_marked s y
            | Xor_e bs \<Rightarrow> count_parity s [a] 1 smod 2 = 0
            | _ \<Rightarrow> False), clean_store))"
  by (cases a) (auto simp add: check_def block_defs scoped_mark_clean skip_clean Let_def simp del: equiv_expr.simps)

lemma check_total:
  "\<exists>v. check jst clean_store = Inr (v, clean_store)"
proof -
  obtain m where m: "select_main jst = Inr m"
    using select_main_total by blast
  show ?thesis
  proof (cases m)
    case None
    with m show ?thesis by (auto simp: check_None)
  next
    case (Some e)
    with m show ?thesis
      by (cases e)
        (auto simp add: check_Atom check_And check_Or check_Eq check_Ite check_Implies
           check_Xor check_Not Let_def)
  qed
qed

text \<open>
  From any store with no scope open, a call returns a verdict and leaves the store as it
  found it (when no block opened a scope) or clean.
\<close>

lemma scope_open_clean_store: "\<not> scope_open clean_store"
  by (simp add: clean_store_def)

lemma scoped_mark_closed:
  "\<not> scope_open s \<Longrightarrow>
   \<exists>r s'. scoped_mark mk jst body s = Inr (r, s') \<and> (s' = s \<or> s' = clean_store)"
  by (simp add: scoped_mark_closes)

lemma skip_closed:
  "\<exists>r s'. skip s = Inr (r, s') \<and> (s' = s \<or> s' = clean_store)"
  by (simp add: skip_def)

lemma seq_blocks_closed:
  assumes blocks: "\<And>b s. b \<in> set bs \<Longrightarrow> \<not> scope_open s \<Longrightarrow>
            \<exists>r s'. b s = Inr (r, s') \<and> (s' = s \<or> s' = clean_store)"
    and closed: "\<not> scope_open s"
  shows "\<exists>r s'. seq_blocks bs s = Inr (r, s') \<and> (s' = s \<or> s' = clean_store)"
  using assms
proof (induction bs arbitrary: s)
  case Nil
  then show ?case by simp
next
  case (Cons b bs)
  from Cons.prems obtain r s1 where b: "b s = Inr (r, s1)" and s1: "s1 = s \<or> s1 = clean_store"
    by (meson list.set_intros(1))
  show ?case
  proof (cases r)
    case (Some v)
    with b s1 show ?thesis by simp
  next
    case None
    from s1 Cons.prems(2) have "\<not> scope_open s1"
      using scope_open_clean_store by auto
    with Cons.IH [of s1] Cons.prems(1) obtain r' s2
      where "seq_blocks bs s1 = Inr (r', s2)" "s2 = s1 \<or> s2 = clean_store"
      by (meson list.set_intros(2))
    with b s1 None show ?thesis by auto
  qed
qed

lemma not_block_closed:
  assumes closed: "\<not> scope_open s"
  shows "\<exists>r s'. not_block main_expr jst s = Inr (r, s') \<and> (s' = s \<or> s' = clean_store)"
proof (cases main_expr)
  case (Not_e a)
  have "\<exists>r s'. seq_blocks [not_equiv_block a jst, not_and_block a jst, not_or_block a jst,
                   not_eq_block a jst, not_ite_block a jst, not_implies_block a jst,
                   not_xor_block main_expr a jst] s = Inr (r, s') \<and> (s' = s \<or> s' = clean_store)"
  proof (rule seq_blocks_closed)
    fix b and t :: mark_store
    assume "b \<in> set [not_equiv_block a jst, not_and_block a jst, not_or_block a jst,
                   not_eq_block a jst, not_ite_block a jst, not_implies_block a jst,
                   not_xor_block main_expr a jst]" and "\<not> scope_open t"
    then show "\<exists>r s'. b t = Inr (r, s') \<and> (s' = t \<or> s' = clean_store)"
      by (auto simp: not_equiv_block_def not_and_block_def not_or_block_def not_eq_block_def
            not_ite_block_def not_implies_block_def not_xor_block_def skip_def scoped_mark_closes
            split: expr.splits)
  qed (rule closed)
  with Not_e show ?thesis
    by (simp add: not_block_def)
qed (simp_all add: not_block_def skip_def)

lemma check_closed:
  assumes closed: "\<not> scope_open s"
  shows "\<exists>v s'. check jst s = Inr (v, s') \<and> (s' = s \<or> s' = clean_store)"
proof -
  obtain m where m: "select_main jst = Inr m"
    using select_main_total by blast
  show ?thesis
  proof (cases m)
    case None
    with m show ?thesis by (auto simp: check_None)
  next
    case (Some e)
    have "\<exists>r s'. seq_blocks [and_block e jst, or_block e jst, eq_bool_block e jst,
                     eq_ite_block e jst, ite_block e jst, implies_block e jst, xor_block e jst,
                     not_block e jst] s = Inr (r, s') \<and> (s' = s \<or> s' = clean_store)"
    proof (rule seq_blocks_closed)
      fix b and t :: mark_store
      assume "b \<in> set [and_block e jst, or_block e jst, eq_bool_block e jst, eq_ite_block e jst,
                     ite_block e jst, implies_block e jst, xor_block e jst, not_block e jst]"
        and "\<not> scope_open t"
      then show "\<exists>r s'. b t = Inr (r, s') \<and> (s' = t \<or> s' = clean_store)"
        using not_block_closed [of t e jst]
        by (auto simp: and_block_def or_block_def eq_bool_block_def eq_ite_block_def ite_block_def
              implies_block_def xor_block_def skip_def scoped_mark_closes
              split: expr.splits)
    qed (rule closed)
    then obtain r s'
      where "seq_blocks [and_block e jst, or_block e jst, eq_bool_block e jst, eq_ite_block e jst,
                     ite_block e jst, implies_block e jst, xor_block e jst, not_block e jst] s = Inr (r, s')"
        "s' = s \<or> s' = clean_store"
      by blast
    with m Some show ?thesis
      by (cases r) (auto simp: check_def)
  qed
qed

lemma smod_2_eq_0_iff: "(k::int) smod 2 = 0 \<longleftrightarrow> even k"
  by (auto simp: signed_modulo_int_def sgn_if)

lemma count_parity_eq:
  "count_parity s args p =
     p + int (length (filter (is_marked s) args))
       - int (length (filter (\<lambda>a. \<not> is_marked s a \<and> is_complement s a) args))"
  unfolding count_parity_def
  by (induction args arbitrary: p) auto

lemma check_Not_Xor_True:
  assumes "select_main jst = Inr (Some (Not_e (Xor_e bs)))"
  shows "check jst clean_store = Inr (True, clean_store)"
proof (cases "list_ex (equiv_expr (Xor_e bs)) jst")
  case True
  with assms show ?thesis by (simp add: check_Not Let_def del: equiv_expr.simps)
next
  case False
  then have absent: "Xor_e bs \<notin> set jst"
    by (auto simp: list_ex_iff)
  have "Not_e (Xor_e bs) \<in> set jst"
    using select_main_Some [OF assms] by simp
  then have "Xor_e bs \<in> negate ` set jst"
    by force
  with absent have "count_parity (fold complement_mark jst fresh_scope) [Xor_e bs] 1 = 0"
    by (simp add: count_parity_def is_marked_complement_marked is_complement_complement_marked)
  with assms show ?thesis by (simp add: check_Not Let_def del: equiv_expr.simps)
qed

section \<open>C1: the rule for a negated exclusive-or\<close>

text \<open>
  Claim C1 at the clause \<open>not(xor(a,b)), a, not(b)\<close>. The representative is the negated
  exclusive-or. Over the arguments \<open>a\<close>, \<open>b\<close> of the exclusive-or one is marked present
  and one has its complement attested, so the claim's number 1 + (1 - 1) is odd, and the
  counting loop run over \<open>a\<close>, \<open>b\<close> from 1 ends at 1. The loop of line 218 runs over the
  arguments of \<^verbatim>\<open>main_expr\<close> instead, that is over the single term \<open>xor(a,b)\<close>, whose
  complement the representative attests: it ends at 0 and \<open>check\<close> returns true.
\<close>

theorem check_not_xor_failing_input:
  "select_main [Not_e (Xor_e [atom_a, atom_b]), atom_a, Not_e atom_b]
     = Inr (Some (Not_e (Xor_e [atom_a, atom_b]))) \<and>
   odd (1 + (int (length (filter
                (is_marked (fold complement_mark
                   [Not_e (Xor_e [atom_a, atom_b]), atom_a, Not_e atom_b] fresh_scope))
                [atom_a, atom_b]))
             - int (length (filter
                (is_complement (fold complement_mark
                   [Not_e (Xor_e [atom_a, atom_b]), atom_a, Not_e atom_b] fresh_scope))
                [atom_a, atom_b])))) \<and>
   count_parity
     (fold complement_mark [Not_e (Xor_e [atom_a, atom_b]), atom_a, Not_e atom_b] fresh_scope)
     [atom_a, atom_b] 1 = 1 \<and>
   get_args (Not_e (Xor_e [atom_a, atom_b])) = [Xor_e [atom_a, atom_b]] \<and>
   count_parity
     (fold complement_mark [Not_e (Xor_e [atom_a, atom_b]), atom_a, Not_e atom_b] fresh_scope)
     (get_args (Not_e (Xor_e [atom_a, atom_b]))) 1 = 0 \<and>
   check [Not_e (Xor_e [atom_a, atom_b]), atom_a, Not_e atom_b] clean_store
     = Inr (True, clean_store)"
proof -
  have sel: "select_main [Not_e (Xor_e [atom_a, atom_b]), atom_a, Not_e atom_b]
     = Inr (Some (Not_e (Xor_e [atom_a, atom_b])))"
    by (simp add: eval_simps)
  show ?thesis
    unfolding check_Not_Xor_True [OF sel]
    by (simp add: eval_simps count_parity_def)
qed

section \<open>C2: selection of the representative literal\<close>

text \<open>
  Claim C2. For a non-empty clause the loop ends with a literal of the clause whose depth
  is maximal among the literals of the clause; the empty clause leaves no literal. A
  further literal of the same depth replaces the held one exactly when the held one is a
  negation, so a held literal that is not a negation survives any continuation of the
  clause by literals that are not deeper.
\<close>

theorem select_main_tie_break:
  "select_main [] = Inr None \<and>
   (jst \<noteq> [] \<longrightarrow>
      (\<exists>r. select_main jst = Inr (Some r) \<and> r \<in> set jst \<and>
           (\<forall>l\<in>set jst. get_depth l \<le> get_depth r))) \<and>
   (select_main jst = Inr (Some r) \<and> get_depth l = get_depth r \<longrightarrow>
      select_main (jst @ [l]) = Inr (Some (if is_not r then l else r))) \<and>
   (select_main jst = Inr (Some r) \<and> \<not> is_not r \<and> (\<forall>l\<in>set rest. get_depth l \<le> get_depth r) \<longrightarrow>
      select_main (jst @ rest) = Inr (Some r))"
proof (intro conjI impI)
  show "select_main [] = Inr None"
    by (simp add: select_main_def)
next
  assume "jst \<noteq> []"
  then obtain r where "select_main jst = Inr (Some r)"
    using select_main_nonempty by blast
  with select_main_Some [OF this]
  show "\<exists>r. select_main jst = Inr (Some r) \<and> r \<in> set jst \<and> (\<forall>l\<in>set jst. get_depth l \<le> get_depth r)"
    by blast
next
  assume "select_main jst = Inr (Some r) \<and> get_depth l = get_depth r"
  then have "select_loop jst (None, 0) = Inr (Some r, get_depth r)" and "get_depth l = get_depth r"
    using select_main_Some by blast+
  then show "select_main (jst @ [l]) = Inr (Some (if is_not r then l else r))"
    by (simp add: select_main_def select_loop_append select_loop_Cons)
next
  assume a: "select_main jst = Inr (Some r) \<and> \<not> is_not r \<and> (\<forall>l\<in>set rest. get_depth l \<le> get_depth r)"
  then have "select_loop jst (None, 0) = Inr (Some r, get_depth r)"
    using select_main_Some by blast
  moreover have "select_loop rest (Some r, get_depth r) = Inr (Some r, get_depth r)"
    using a by (intro select_loop_keep) auto
  ultimately show "select_main (jst @ rest) = Inr (Some r)"
    by (simp add: select_main_def select_loop_append)
qed

theorem select_main_tie_break_witness:
  "select_main [Not_e atom_a, Or_e [atom_a, atom_b]]
     = Inr (Some (Or_e [atom_a, atom_b])) \<and>
   select_main ([Not_e atom_a, Or_e [atom_a, atom_b]] @
                [Not_e atom_b])
     = Inr (Some (Or_e [atom_a, atom_b])) \<and>
   select_main ([Not_e atom_a] @ [Not_e atom_b])
     = Inr (Some (Not_e atom_b))"
  using select_main_tie_break
          [of "[Not_e atom_a, Or_e [atom_a, atom_b]]"
              "Or_e [atom_a, atom_b]"
              "Not_e atom_b"
              "[Not_e atom_b]"]
        select_main_tie_break
          [of "[Not_e atom_a]"
              "Not_e atom_a"
              "Not_e atom_b"
              "[]"]
  by (simp add: select_main_def select_loop_Cons)

section \<open>C3: the rule for a conjunction\<close>

text \<open>
  Claim C3. When the representative literal is a conjunction, \<open>check\<close> returns true
  exactly when, after every clause literal has been complement-marked in a fresh scope,
  each conjunct has its complement attested. For two distinct atoms \<open>a\<close> and \<open>b\<close> the
  clause \<open>and(a,b), not(a), not(b)\<close> is accepted and the clause \<open>and(a,b), not(a)\<close> is
  rejected, in whatever order the literals come.
\<close>

theorem check_and_rule:
  "(select_main jst = Inr (Some (And_e args)) \<longrightarrow>
      check jst clean_store =
        Inr (list_all (is_complement (fold complement_mark jst fresh_scope)) args, clean_store)) \<and>
   (a = Atom n s xs \<and> b = Atom n' s' xs' \<and> a \<noteq> b \<longrightarrow>
      check [And_e [a, b], Not_e a, Not_e b] clean_store = Inr (True, clean_store) \<and>
      check [And_e [a, b], Not_e a] clean_store = Inr (False, clean_store) \<and>
      (set jst = {And_e [a, b], Not_e a, Not_e b} \<longrightarrow> check jst clean_store = Inr (True, clean_store)) \<and>
      (set jst = {And_e [a, b], Not_e a} \<longrightarrow> check jst clean_store = Inr (False, clean_store)))"
proof (intro conjI impI)
  assume "select_main jst = Inr (Some (And_e args))"
  then show "check jst clean_store =
      Inr (list_all (is_complement (fold complement_mark jst fresh_scope)) args, clean_store)"
    by (rule check_And)
next
  assume ab: "a = Atom n s xs \<and> b = Atom n' s' xs' \<and> a \<noteq> b"
  have full: "check c clean_store = Inr (True, clean_store)"
    if c: "set c = {And_e [a, b], Not_e a, Not_e b}" for c
  proof -
    have "select_main c = Inr (Some (And_e [a, b]))"
      by (rule select_main_args_clause) (simp_all add: c)
    then have "check c clean_store =
        Inr (list_all (is_complement (fold complement_mark c fresh_scope)) [a, b], clean_store)"
      by (rule check_And)
    moreover have "a \<in> negate ` set c" "b \<in> negate ` set c"
      unfolding c using ab by simp_all
    ultimately show ?thesis
      by (simp add: marked_simps)
  qed
  have part: "check c clean_store = Inr (False, clean_store)"
    if c: "set c = {And_e [a, b], Not_e a}" for c
  proof -
    have "select_main c = Inr (Some (And_e [a, b]))"
      by (rule select_main_args_clause) (simp_all add: c)
    then have "check c clean_store =
        Inr (list_all (is_complement (fold complement_mark c fresh_scope)) [a, b], clean_store)"
      by (rule check_And)
    moreover have "b \<notin> negate ` set c"
      unfolding c using ab by auto
    ultimately show ?thesis
      by (simp add: marked_simps)
  qed
  show "check [And_e [a, b], Not_e a, Not_e b] clean_store = Inr (True, clean_store)"
    by (rule full) simp
  show "check [And_e [a, b], Not_e a] clean_store = Inr (False, clean_store)"
    by (rule part) simp
  show "check jst clean_store = Inr (True, clean_store)"
    if "set jst = {And_e [a, b], Not_e a, Not_e b}"
    using that by (rule full)
  show "check jst clean_store = Inr (False, clean_store)"
    if "set jst = {And_e [a, b], Not_e a}"
    using that by (rule part)
qed

theorem check_and_rule_witness:
  "check [Not_e atom_b, And_e [atom_a, atom_b],
          Not_e atom_a] clean_store = Inr (True, clean_store) \<and>
   check [And_e [atom_a, atom_b], Not_e atom_a,
          Not_e atom_b] clean_store = Inr (True, clean_store) \<and>
   check [Not_e atom_a, And_e [atom_a, atom_b]] clean_store
     = Inr (False, clean_store) \<and>
   list_all (is_complement (fold complement_mark
       [Not_e atom_a, And_e [atom_a, atom_b]] fresh_scope))
       [atom_a, atom_b] = False"
  using check_and_rule
          [where jst = "[Not_e atom_b, And_e [atom_a, atom_b],
                         Not_e atom_a]"
             and args = "[atom_a, atom_b]"
             and a = atom_a and n = 0 and s = Bool_sort and xs = "[]"
             and b = atom_b and n' = 1 and s' = Bool_sort and xs' = "[]"]
        check_and_rule
          [where jst = "[Not_e atom_a, And_e [atom_a, atom_b]]"
             and args = "[atom_a, atom_b]"
             and a = atom_a and n = 0 and s = Bool_sort and xs = "[]"
             and b = atom_b and n' = 1 and s' = Bool_sort and xs' = "[]"]
  by (simp add: eval_simps insert_commute)

section \<open>C4: every call ends with a verdict\<close>

text \<open>
  Claim C4, as stated, at the clauses \<open>not(and(a,b)), and(a,b)\<close> and
  \<open>xor(a,b), a, not(a), b\<close>, with the rules of section 4.5 of the spec. In the first the
  representative is the negated conjunction and neither conjunct is marked present, so
  the one disjunct of its rule fails; \<open>check\<close> returns true, by the test of lines 153 to
  155. In the second the representative is the exclusive-or, two arguments are marked
  present and one has its complement attested, so the difference is odd and the one
  disjunct of its rule fails; \<open>check\<close> returns true, since the loop of lines 141 to 145
  does not look at the complement of an argument that is marked.
\<close>

theorem check_rule_miss_counterexample:
  "select_main [Not_e (And_e [atom_a, atom_b]), And_e [atom_a, atom_b]]
     = Inr (Some (Not_e (And_e [atom_a, atom_b]))) \<and>
   list_ex
     (is_marked (fold mark [Not_e (And_e [atom_a, atom_b]), And_e [atom_a, atom_b]] fresh_scope))
     [atom_a, atom_b] = False \<and>
   check [Not_e (And_e [atom_a, atom_b]), And_e [atom_a, atom_b]] clean_store
     = Inr (True, clean_store) \<and>
   select_main [Xor_e [atom_a, atom_b], atom_a, Not_e atom_a, atom_b]
     = Inr (Some (Xor_e [atom_a, atom_b])) \<and>
   odd (int (length (filter
          (is_marked (fold complement_mark
             [Xor_e [atom_a, atom_b], atom_a, Not_e atom_a, atom_b] fresh_scope))
          [atom_a, atom_b]))
        - int (length (filter
          (is_complement (fold complement_mark
             [Xor_e [atom_a, atom_b], atom_a, Not_e atom_a, atom_b] fresh_scope))
          [atom_a, atom_b]))) \<and>
   check [Xor_e [atom_a, atom_b], atom_a, Not_e atom_a, atom_b] clean_store
     = Inr (True, clean_store)"
proof -
  have sel_not: "select_main [Not_e (And_e [atom_a, atom_b]), And_e [atom_a, atom_b]]
     = Inr (Some (Not_e (And_e [atom_a, atom_b])))"
    by (simp add: eval_simps)
  have sel_xor: "select_main [Xor_e [atom_a, atom_b], atom_a, Not_e atom_a, atom_b]
     = Inr (Some (Xor_e [atom_a, atom_b]))"
    by (simp add: eval_simps)
  show ?thesis
    unfolding check_Not [OF sel_not] check_Xor [OF sel_xor]
    by (simp add: eval_simps count_parity_def smod_2_eq_0_iff)
qed

text \<open>
  Claim C4, amended. On the clean store, and on any store with no scope open, \<open>check\<close>
  never fails: the selection loop never reads the null pointer, since every term has a
  positive depth, and no scope is opened while another is open. It returns a verdict, and
  from the clean store it leaves the clean store. The verdict is false for the empty
  clause, for a representative that is none of the seven connectives, and for a
  representative of a recognised connective when no disjunct of its rule holds, where the
  rules are those of section 4.5 of the spec with two changes: for a negation \<open>not(a)\<close>,
  whatever the shape of \<open>a\<close>, a clause literal \<open>equiv\<close> to \<open>a\<close> is a disjunct of the rule;
  and the count of the rule for an exclusive-or is the number of arguments marked present
  minus the number of arguments that are not marked present and have their complement
  attested. An equality over a sort that is not Boolean and whose left side is no
  if-then-else, and an if-then-else over such a sort, have no rule at all. Nothing is
  stated about the verdict for a representative \<open>not(xor(..))\<close>.
\<close>

theorem check_never_raises:
  "(\<exists>v. check jst clean_store = Inr (v, clean_store)) \<and>
   (\<not> scope_open st \<longrightarrow> (\<exists>v st'. check jst st = Inr (v, st'))) \<and>
   (\<exists>m. select_main jst = Inr m) \<and>
   check [] clean_store = Inr (False, clean_store) \<and>
   (select_main jst = Inr (Some (Atom n srt args)) \<longrightarrow>
      check jst clean_store = Inr (False, clean_store)) \<and>
   (S = fold complement_mark jst fresh_scope \<and> P = fold mark jst fresh_scope \<longrightarrow>
     (select_main jst = Inr (Some (And_e args)) \<and> \<not> list_all (is_complement S) args \<longrightarrow>
        check jst clean_store = Inr (False, clean_store)) \<and>
     (select_main jst = Inr (Some (Or_e args)) \<and> \<not> list_ex (is_complement S) args \<longrightarrow>
        check jst clean_store = Inr (False, clean_store)) \<and>
     (select_main jst = Inr (Some (Eq_e x y)) \<and>
      \<not> (is_bool x \<and> (is_marked S x \<and> is_marked S y \<or> is_complement S x \<and> is_complement S y)) \<and>
      (\<forall>z u v. x = Ite_e z u v \<longrightarrow>
         \<not> (is_marked S z \<and> equiv_expr y v \<or> is_complement S z \<and> equiv_expr y u)) \<longrightarrow>
        check jst clean_store = Inr (False, clean_store)) \<and>
     (select_main jst = Inr (Some (Ite_e x y z)) \<and>
      \<not> (is_bool z \<and> (is_marked S x \<and> is_complement S z \<or> is_complement S x \<and> is_complement S y \<or>
                         is_complement S y \<and> is_complement S z)) \<longrightarrow>
        check jst clean_store = Inr (False, clean_store)) \<and>
     (select_main jst = Inr (Some (Implies_e x y)) \<and> \<not> is_marked S x \<and> \<not> is_complement S y \<longrightarrow>
        check jst clean_store = Inr (False, clean_store)) \<and>
     (select_main jst = Inr (Some (Xor_e args)) \<and>
      odd (int (length (filter (is_marked S) args))
           - int (length (filter (\<lambda>arg. \<not> is_marked S arg \<and> is_complement S arg) args))) \<longrightarrow>
        check jst clean_store = Inr (False, clean_store)) \<and>
     (select_main jst = Inr (Some (Not_e a)) \<and> \<not> is_xor a \<and>
      \<not> list_ex (equiv_expr a) jst \<and>
      (case a of
         And_e bs \<Rightarrow> \<not> list_ex (is_marked P) bs
       | Or_e bs \<Rightarrow> \<not> list_all (is_marked P) bs
       | Eq_e x y \<Rightarrow>
           \<not> (is_bool x \<and> (is_marked S x \<and> is_complement S y \<or> is_marked S y \<and> is_complement S x))
       | Ite_e x y z \<Rightarrow>
           \<not> (is_bool z \<and> (is_complement S x \<and> is_marked S y \<or> is_marked S x \<and> is_marked S z \<or>
                              is_marked S y \<and> is_marked S z))
       | Implies_e x y \<Rightarrow> \<not> (is_complement S x \<and> is_marked S y)
       | _ \<Rightarrow> True) \<longrightarrow>
        check jst clean_store = Inr (False, clean_store)))"
proof (intro conjI impI)
  show "\<exists>v. check jst clean_store = Inr (v, clean_store)"
    by (rule check_total)
  show "\<exists>v st'. check jst st = Inr (v, st')" if "\<not> scope_open st"
    using check_closed [OF that] by blast
  show "\<exists>m. select_main jst = Inr m"
    by (rule select_main_total)
  show "check [] clean_store = Inr (False, clean_store)"
    by (simp add: check_def select_main_def)
  show "check jst clean_store = Inr (False, clean_store)"
    if "select_main jst = Inr (Some (Atom n srt args))"
    using that by (rule check_Atom)
next
  assume SP: "S = fold complement_mark jst fresh_scope \<and> P = fold mark jst fresh_scope"
  show "check jst clean_store = Inr (False, clean_store)"
    if "select_main jst = Inr (Some (And_e args)) \<and> \<not> list_all (is_complement S) args"
    using that SP by (simp add: check_And)
  show "check jst clean_store = Inr (False, clean_store)"
    if "select_main jst = Inr (Some (Or_e args)) \<and> \<not> list_ex (is_complement S) args"
    using that SP by (simp add: check_Or)
  show "check jst clean_store = Inr (False, clean_store)"
    if "select_main jst = Inr (Some (Eq_e x y)) \<and>
      \<not> (is_bool x \<and> (is_marked S x \<and> is_marked S y \<or> is_complement S x \<and> is_complement S y)) \<and>
      (\<forall>z u v. x = Ite_e z u v \<longrightarrow>
         \<not> (is_marked S z \<and> equiv_expr y v \<or> is_complement S z \<and> equiv_expr y u))"
  proof -
    from that have sel: "select_main jst = Inr (Some (Eq_e x y))"
      by simp
    from that SP show ?thesis
      unfolding check_Eq [OF sel] Let_def
      by (cases x) (auto simp del: equiv_expr.simps)
  qed
  show "check jst clean_store = Inr (False, clean_store)"
    if "select_main jst = Inr (Some (Ite_e x y z)) \<and>
      \<not> (is_bool z \<and> (is_marked S x \<and> is_complement S z \<or> is_complement S x \<and> is_complement S y \<or>
                         is_complement S y \<and> is_complement S z))"
    using that SP check_Ite [of jst x y z] by (simp add: Let_def)
  show "check jst clean_store = Inr (False, clean_store)"
    if "select_main jst = Inr (Some (Implies_e x y)) \<and> \<not> is_marked S x \<and> \<not> is_complement S y"
    using that SP check_Implies [of jst x y] by (simp add: Let_def)
  show "check jst clean_store = Inr (False, clean_store)"
    if "select_main jst = Inr (Some (Xor_e args)) \<and>
      odd (int (length (filter (is_marked S) args))
           - int (length (filter (\<lambda>arg. \<not> is_marked S arg \<and> is_complement S arg) args)))"
    using that SP by (simp add: check_Xor smod_2_eq_0_iff count_parity_eq)
  show "check jst clean_store = Inr (False, clean_store)"
    if "select_main jst = Inr (Some (Not_e a)) \<and> \<not> is_xor a \<and>
      \<not> list_ex (equiv_expr a) jst \<and>
      (case a of
         And_e bs \<Rightarrow> \<not> list_ex (is_marked P) bs
       | Or_e bs \<Rightarrow> \<not> list_all (is_marked P) bs
       | Eq_e x y \<Rightarrow>
           \<not> (is_bool x \<and> (is_marked S x \<and> is_complement S y \<or> is_marked S y \<and> is_complement S x))
       | Ite_e x y z \<Rightarrow>
           \<not> (is_bool z \<and> (is_complement S x \<and> is_marked S y \<or> is_marked S x \<and> is_marked S z \<or>
                              is_marked S y \<and> is_marked S z))
       | Implies_e x y \<Rightarrow> \<not> (is_complement S x \<and> is_marked S y)
       | _ \<Rightarrow> True)"
    using that SP check_Not [of jst a]
    by (cases a) (simp_all add: Let_def del: equiv_expr.simps)
qed

theorem check_never_raises_witness:
  "check [] clean_store = Inr (False, clean_store) \<and>
   check [atom_a] clean_store = Inr (False, clean_store) \<and>
   check [And_e [atom_a, atom_b], Not_e atom_a] clean_store = Inr (False, clean_store) \<and>
   check [Or_e [atom_a, atom_b], atom_a] clean_store = Inr (False, clean_store) \<and>
   check [Eq_e atom_a atom_b, atom_a] clean_store = Inr (False, clean_store) \<and>
   check [Eq_e term_u term_v] clean_store = Inr (False, clean_store) \<and>
   check [Ite_e atom_a atom_b atom_c, atom_a] clean_store = Inr (False, clean_store) \<and>
   check [Implies_e atom_a atom_b, atom_b] clean_store = Inr (False, clean_store) \<and>
   check [Xor_e [atom_a, atom_b], atom_a] clean_store = Inr (False, clean_store) \<and>
   check [Not_e atom_a] clean_store = Inr (False, clean_store) \<and>
   check [Not_e (And_e [atom_a, atom_b])] clean_store = Inr (False, clean_store) \<and>
   check [Not_e (Implies_e atom_a atom_b), atom_a] clean_store = Inr (False, clean_store)"
  using check_never_raises
          [where jst = "[atom_a]"
             and S = "fold complement_mark [atom_a] fresh_scope"
             and st = clean_store
             and P = "fold mark [atom_a] fresh_scope"
             and n = 0
             and srt = Bool_sort
             and args = "[]"]
        check_never_raises
          [where jst = "[And_e [atom_a, atom_b], Not_e atom_a]"
             and S = "fold complement_mark [And_e [atom_a, atom_b], Not_e atom_a] fresh_scope"
             and st = clean_store
             and P = "fold mark [And_e [atom_a, atom_b], Not_e atom_a] fresh_scope"
             and args = "[atom_a, atom_b]"]
        check_never_raises
          [where jst = "[Or_e [atom_a, atom_b], atom_a]"
             and S = "fold complement_mark [Or_e [atom_a, atom_b], atom_a] fresh_scope"
             and st = clean_store
             and P = "fold mark [Or_e [atom_a, atom_b], atom_a] fresh_scope"
             and args = "[atom_a, atom_b]"]
        check_never_raises
          [where jst = "[Eq_e atom_a atom_b, atom_a]"
             and S = "fold complement_mark [Eq_e atom_a atom_b, atom_a] fresh_scope"
             and st = clean_store
             and P = "fold mark [Eq_e atom_a atom_b, atom_a] fresh_scope"
             and x = atom_a
             and y = atom_b]
        check_never_raises
          [where jst = "[Eq_e term_u term_v]"
             and S = "fold complement_mark [Eq_e term_u term_v] fresh_scope"
             and st = clean_store
             and P = "fold mark [Eq_e term_u term_v] fresh_scope"
             and x = term_u
             and y = term_v]
        check_never_raises
          [where jst = "[Ite_e atom_a atom_b atom_c, atom_a]"
             and S = "fold complement_mark [Ite_e atom_a atom_b atom_c, atom_a] fresh_scope"
             and st = clean_store
             and P = "fold mark [Ite_e atom_a atom_b atom_c, atom_a] fresh_scope"
             and x = atom_a
             and y = atom_b
             and z = atom_c]
        check_never_raises
          [where jst = "[Implies_e atom_a atom_b, atom_b]"
             and S = "fold complement_mark [Implies_e atom_a atom_b, atom_b] fresh_scope"
             and st = clean_store
             and P = "fold mark [Implies_e atom_a atom_b, atom_b] fresh_scope"
             and x = atom_a
             and y = atom_b]
        check_never_raises
          [where jst = "[Xor_e [atom_a, atom_b], atom_a]"
             and S = "fold complement_mark [Xor_e [atom_a, atom_b], atom_a] fresh_scope"
             and st = clean_store
             and P = "fold mark [Xor_e [atom_a, atom_b], atom_a] fresh_scope"
             and args = "[atom_a, atom_b]"]
        check_never_raises
          [where jst = "[Not_e atom_a]"
             and S = "fold complement_mark [Not_e atom_a] fresh_scope"
             and st = clean_store
             and P = "fold mark [Not_e atom_a] fresh_scope"
             and a = atom_a]
        check_never_raises
          [where jst = "[Not_e (And_e [atom_a, atom_b])]"
             and S = "fold complement_mark [Not_e (And_e [atom_a, atom_b])] fresh_scope"
             and st = clean_store
             and P = "fold mark [Not_e (And_e [atom_a, atom_b])] fresh_scope"
             and a = "And_e [atom_a, atom_b]"]
        check_never_raises
          [where jst = "[Not_e (Implies_e atom_a atom_b), atom_a]"
             and S = "fold complement_mark [Not_e (Implies_e atom_a atom_b), atom_a] fresh_scope"
             and st = clean_store
             and P = "fold mark [Not_e (Implies_e atom_a atom_b), atom_a] fresh_scope"
             and a = "Implies_e atom_a atom_b"]
  by (simp add: eval_simps count_parity_def smod_2_eq_0_iff scope_open_clean_store)

section \<open>C5: the rule for an exclusive-or\<close>

text \<open>
  Claim C5, as stated, at the clause \<open>xor(a,b), a, not(a)\<close>. The representative is the
  exclusive-or. One argument is marked present and one argument has its complement
  attested (the same one, \<open>a\<close>), so the difference of the two numbers is 0, which is
  even; \<open>check\<close> returns false.
\<close>

theorem check_xor_both_marks_counterexample:
  "select_main [Xor_e [atom_a, atom_b], atom_a, Not_e atom_a]
     = Inr (Some (Xor_e [atom_a, atom_b])) \<and>
   even (int (length (filter
           (is_marked (fold complement_mark
              [Xor_e [atom_a, atom_b], atom_a, Not_e atom_a] fresh_scope))
           [atom_a, atom_b]))
         - int (length (filter
           (is_complement (fold complement_mark
              [Xor_e [atom_a, atom_b], atom_a, Not_e atom_a] fresh_scope))
           [atom_a, atom_b]))) \<and>
   check [Xor_e [atom_a, atom_b], atom_a, Not_e atom_a] clean_store = Inr (False, clean_store)"
proof -
  have sel: "select_main [Xor_e [atom_a, atom_b], atom_a, Not_e atom_a]
     = Inr (Some (Xor_e [atom_a, atom_b]))"
    by (simp add: eval_simps)
  show ?thesis
    unfolding check_Xor [OF sel]
    by (simp add: eval_simps count_parity_def smod_2_eq_0_iff)
qed

text \<open>
  Claim C5, amended. When the representative literal is an exclusive-or, \<open>check\<close> returns
  true exactly when, after every clause literal has been complement-marked in a fresh
  scope, the number of arguments marked present minus the number of arguments that are
  not marked present and have their complement attested is even: the loop of lines 141 to
  145 tests the complement of an argument only when the argument is not marked. For
  distinct atoms the clause \<open>xor(a,b,c,d), a, b, not(c), not(d)\<close> is accepted, in whatever
  order the literals come.
\<close>

theorem check_xor_rule:
  "(select_main jst = Inr (Some (Xor_e args)) \<longrightarrow>
      check jst clean_store =
        Inr (even (int (length (filter (is_marked (fold complement_mark jst fresh_scope)) args))
                   - int (length (filter (\<lambda>arg. \<not> is_marked (fold complement_mark jst fresh_scope) arg \<and>
                                                 is_complement (fold complement_mark jst fresh_scope) arg)
                                         args))),
             clean_store)) \<and>
   (a = Atom na sa xa \<and> b = Atom nb sb xb \<and> c = Atom nc sc xc \<and> d = Atom nd sd xd \<and>
    distinct [a, b, c, d] \<longrightarrow>
      check [Xor_e [a, b, c, d], a, b, Not_e c, Not_e d] clean_store = Inr (True, clean_store) \<and>
      (set jst = {Xor_e [a, b, c, d], a, b, Not_e c, Not_e d} \<longrightarrow>
         check jst clean_store = Inr (True, clean_store)))"
proof (intro conjI impI)
  assume "select_main jst = Inr (Some (Xor_e args))"
  then show "check jst clean_store =
        Inr (even (int (length (filter (is_marked (fold complement_mark jst fresh_scope)) args))
                   - int (length (filter (\<lambda>arg. \<not> is_marked (fold complement_mark jst fresh_scope) arg \<and>
                                                 is_complement (fold complement_mark jst fresh_scope) arg)
                                         args))),
             clean_store)"
    by (simp add: check_Xor smod_2_eq_0_iff count_parity_eq)
next
  assume atoms: "a = Atom na sa xa \<and> b = Atom nb sb xb \<and> c = Atom nc sc xc \<and> d = Atom nd sd xd \<and>
    distinct [a, b, c, d]"
  have full: "check j clean_store = Inr (True, clean_store)"
    if j: "set j = {Xor_e [a, b, c, d], a, b, Not_e c, Not_e d}" for j
  proof -
    have "select_main j = Inr (Some (Xor_e [a, b, c, d]))"
      by (rule select_main_args_clause) (simp_all add: j)
    then have "check j clean_store =
        Inr (count_parity (fold complement_mark j fresh_scope) [a, b, c, d] 0 smod 2 = 0, clean_store)"
      by (rule check_Xor)
    moreover have "a \<in> set j" "b \<in> set j" "c \<notin> set j" "d \<notin> set j"
      "c \<in> negate ` set j" "d \<in> negate ` set j"
      unfolding j using atoms by auto
    ultimately show ?thesis
      by (simp add: count_parity_def marked_simps)
  qed
  show "check [Xor_e [a, b, c, d], a, b, Not_e c, Not_e d] clean_store = Inr (True, clean_store)"
    by (rule full) simp
  show "check jst clean_store = Inr (True, clean_store)"
    if "set jst = {Xor_e [a, b, c, d], a, b, Not_e c, Not_e d}"
    using that by (rule full)
qed

theorem check_xor_rule_witness:
  "check [Xor_e [atom_a, atom_b, atom_c, atom_d], atom_a, atom_b, Not_e atom_c, Not_e atom_d]
     clean_store = Inr (True, clean_store) \<and>
   check [Not_e atom_d, Xor_e [atom_a, atom_b, atom_c, atom_d], atom_b, Not_e atom_c, atom_a]
     clean_store = Inr (True, clean_store) \<and>
   check [Xor_e [atom_a, atom_b], atom_a, Not_e atom_a] clean_store = Inr (False, clean_store) \<and>
   check [Xor_e [atom_a, atom_b], atom_a, Not_e atom_b] clean_store = Inr (True, clean_store)"
  using check_xor_rule
          [where jst = "[Not_e atom_d, Xor_e [atom_a, atom_b, atom_c, atom_d], atom_b,
                         Not_e atom_c, atom_a]"
             and args = "[atom_a, atom_b, atom_c, atom_d]"
             and a = atom_a and na = 0 and sa = Bool_sort and xa = "[]"
             and b = atom_b and nb = 1 and sb = Bool_sort and xb = "[]"
             and c = atom_c and nc = 2 and sc = Bool_sort and xc = "[]"
             and d = atom_d and nd = 3 and sd = Bool_sort and xd = "[]"]
        check_xor_rule
          [where jst = "[Xor_e [atom_a, atom_b], atom_a, Not_e atom_a]"
             and args = "[atom_a, atom_b]"
             and a = atom_a and na = 0 and sa = Bool_sort and xa = "[]"
             and b = atom_b and nb = 1 and sb = Bool_sort and xb = "[]"
             and c = atom_c and nc = 2 and sc = Bool_sort and xc = "[]"
             and d = atom_d and nd = 3 and sd = Bool_sort and xd = "[]"]
        check_xor_rule
          [where jst = "[Xor_e [atom_a, atom_b], atom_a, Not_e atom_b]"
             and args = "[atom_a, atom_b]"
             and a = atom_a and na = 0 and sa = Bool_sort and xa = "[]"
             and b = atom_b and nb = 1 and sb = Bool_sort and xb = "[]"
             and c = atom_c and nc = 2 and sc = Bool_sort and xc = "[]"
             and d = atom_d and nd = 3 and sd = Bool_sort and xd = "[]"]
  by (simp add: eval_simps insert_commute)

section \<open>C6: the equivalence test\<close>

text \<open>
  Claim C6. \<open>equiv\<close> is reflexive. On two terms that are not identical it is true exactly
  when both are equalities \<open>p = q\<close> and \<open>r = s\<close> with \<open>p\<close> identical to \<open>s\<close> and \<open>q\<close>
  identical to \<open>r\<close>. So \<open>equiv (x = y) (y = x)\<close> holds, and two conjunctions
  \<open>and(c,d)\<close>, \<open>and(d,c)\<close> that are not identical are not equivalent.
\<close>

theorem equiv_expr_cross_match:
  "equiv_expr a a \<and>
   (a \<noteq> b \<longrightarrow>
      equiv_expr a b = (\<exists>p q r s. a = Eq_e p q \<and> b = Eq_e r s \<and> p = s \<and> q = r)) \<and>
   equiv_expr (Eq_e x y) (Eq_e y x) \<and>
   (And_e [c, d] \<noteq> And_e [d, c] \<longrightarrow> \<not> equiv_expr (And_e [c, d]) (And_e [d, c]))"
proof (intro conjI impI)
  show "equiv_expr a a"
    by simp
  show "equiv_expr (Eq_e x y) (Eq_e y x)"
    by simp
  show "equiv_expr a b = (\<exists>p q r s. a = Eq_e p q \<and> b = Eq_e r s \<and> p = s \<and> q = r)"
    if "a \<noteq> b"
    using that by (cases a; cases b) auto
  show "\<not> equiv_expr (And_e [c, d]) (And_e [d, c])"
    if "And_e [c, d] \<noteq> And_e [d, c]"
    using that by simp
qed

theorem equiv_expr_cross_match_witness:
  "equiv_expr (Eq_e term_u term_v)
              (Eq_e term_v term_u) \<and>
   \<not> equiv_expr (And_e [atom_a, atom_b])
                (And_e [atom_b, atom_a]) \<and>
   \<not> equiv_expr (Eq_e term_u term_v)
                (Eq_e term_u term_w)"
  using equiv_expr_cross_match
          [where a = "Eq_e term_u term_v"
             and b = "Eq_e term_v term_u"
             and c = atom_a and d = atom_b]
        equiv_expr_cross_match
          [where a = "Eq_e term_u term_v"
             and b = "Eq_e term_u term_w"]
  by simp

section \<open>C7: no call leaves marks behind\<close>

text \<open>
  Claim C7. A call of \<open>check\<close> on the clean store ends on the clean store: no term is
  marked and no scope is open, whatever the verdict. So a second call with the same
  argument, run on the store the first one left, yields the same verdict, and the verdict
  of any later call is the one it has on the clean store. Every guarded block closes its
  scope on both ways out, when its body returns from \<open>check\<close> and when it does not; a
  call on a store with no scope open leaves that store as it was or clean.
\<close>

theorem check_leaves_no_residual_state:
  "(check jst clean_store = Inr (v, s) \<longrightarrow>
      s = clean_store \<and> check jst s = Inr (v, s) \<and> check jst' s = check jst' clean_store) \<and>
   (\<exists>v'. check jst clean_store = Inr (v', clean_store)) \<and>
   (\<not> scope_open st \<longrightarrow> (\<exists>r. scoped_mark mk jst body st = Inr (r, clean_store))) \<and>
   (\<not> scope_open st \<longrightarrow>
      (\<exists>v' st'. check jst st = Inr (v', st') \<and> (st' = st \<or> st' = clean_store))) \<and>
   \<not> scope_open clean_store \<and> m_mark clean_store = {} \<and> m_nmark clean_store = {}"
proof (intro conjI impI)
  show total: "\<exists>v'. check jst clean_store = Inr (v', clean_store)"
    by (rule check_total)
  show "\<exists>r. scoped_mark mk jst body st = Inr (r, clean_store)" if "\<not> scope_open st"
    using scoped_mark_closes [OF that] by blast
  show "\<exists>v' st'. check jst st = Inr (v', st') \<and> (st' = st \<or> st' = clean_store)"
    if "\<not> scope_open st"
    using that by (rule check_closed)
  show "\<not> scope_open clean_store" "m_mark clean_store = {}" "m_nmark clean_store = {}"
    by (simp_all add: clean_store_def)
  assume run: "check jst clean_store = Inr (v, s)"
  with total show s: "s = clean_store"
    by auto
  from run s show "check jst s = Inr (v, s)"
    by simp
  from s show "check jst' s = check jst' clean_store"
    by simp
qed

theorem check_leaves_no_residual_state_witness:
  "check [Xor_e [atom_a, atom_b], atom_a, Not_e atom_b]
     clean_store = Inr (True, clean_store) \<and>
   check [Xor_e [atom_a, atom_b], atom_a]
     clean_store = Inr (False, clean_store) \<and>
   scoped_mark complement_mark [Not_e atom_a] (\<lambda>s. None) clean_store
     = Inr (None, clean_store)"
  using check_leaves_no_residual_state
          [where jst = "[Xor_e [atom_a, atom_b], atom_a,
                         Not_e atom_b]"
             and v = True and s = clean_store and st = clean_store
             and jst' = "[Xor_e [atom_a, atom_b], atom_a]"
             and mk = complement_mark and body = "\<lambda>s. None"]
  by (simp add: eval_simps check_Xor count_parity_def scoped_mark_clean smod_2_eq_0_iff)

section \<open>C8: the rule for an implication\<close>

text \<open>
  Claim C8. When the representative literal is an implication \<open>implies(x,y)\<close>, \<open>check\<close>
  returns true exactly when, after every clause literal has been complement-marked in a
  fresh scope, \<open>x\<close> is marked present or the complement of \<open>y\<close> is attested. The clauses
  \<open>implies(a,b), a\<close> and \<open>implies(a,b), not(b)\<close> are accepted, for all terms \<open>a\<close> and
  \<open>b\<close> (distinct atoms among them) and in whatever order the literals come.
\<close>

theorem check_implies_rule:
  "(select_main jst = Inr (Some (Implies_e x y)) \<longrightarrow>
      check jst clean_store =
        Inr (is_marked (fold complement_mark jst fresh_scope) x \<or>
             is_complement (fold complement_mark jst fresh_scope) y, clean_store)) \<and>
   check [Implies_e a b, a] clean_store = Inr (True, clean_store) \<and>
   check [Implies_e a b, Not_e b] clean_store = Inr (True, clean_store) \<and>
   (set jst = {Implies_e a b, a} \<longrightarrow> check jst clean_store = Inr (True, clean_store)) \<and>
   (set jst = {Implies_e a b, Not_e b} \<longrightarrow> check jst clean_store = Inr (True, clean_store))"
proof -
  have rule: "check c clean_store =
      Inr (is_marked (fold complement_mark c fresh_scope) u \<or>
           is_complement (fold complement_mark c fresh_scope) v, clean_store)"
    if "select_main c = Inr (Some (Implies_e u v))" for c u v
    using check_Implies [OF that] by (simp add: Let_def)
  have left: "check c clean_store = Inr (True, clean_store)"
    if c: "set c = {Implies_e a b, a}" for c
  proof -
    have "select_main c = Inr (Some (Implies_e a b))"
      by (rule select_main_args_clause) (simp_all add: c)
    from rule [OF this] show ?thesis
      by (simp add: marked_simps c)
  qed
  have right: "check c clean_store = Inr (True, clean_store)"
    if c: "set c = {Implies_e a b, Not_e b}" for c
  proof -
    have "select_main c = Inr (Some (Implies_e a b))"
      by (rule select_main_args_clause) (simp_all add: c)
    moreover have "b \<in> negate ` set c"
      unfolding c by simp
    ultimately show ?thesis
      using rule [of c a b] by (simp add: marked_simps)
  qed
  have "check [Implies_e a b, a] clean_store = Inr (True, clean_store)"
    by (rule left) simp
  moreover have "check [Implies_e a b, Not_e b] clean_store = Inr (True, clean_store)"
    by (rule right) simp
  ultimately show ?thesis
    using rule left right by blast
qed

theorem check_implies_rule_witness:
  "check [Implies_e atom_a atom_b, atom_a] clean_store
     = Inr (True, clean_store) \<and>
   check [Not_e atom_b, Implies_e atom_a atom_b] clean_store
     = Inr (True, clean_store) \<and>
   check [Implies_e atom_a atom_b, atom_b] clean_store
     = Inr (False, clean_store)"
  using check_implies_rule
          [where jst = "[Implies_e atom_a atom_b, atom_a]"
             and x = atom_a and y = atom_b
             and a = atom_a and b = atom_b]
        check_implies_rule
          [where jst = "[Not_e atom_b, Implies_e atom_a atom_b]"
             and x = atom_a and y = atom_b
             and a = atom_a and b = atom_b]
        check_implies_rule
          [where jst = "[Implies_e atom_a atom_b, atom_b]"
             and x = atom_a and y = atom_b
             and a = atom_a and b = atom_b]
  by (simp add: eval_simps insert_commute)

section \<open>C9: the rule for a negated disjunction\<close>

text \<open>
  Claim C9, as stated, at the clause \<open>not(or(a,b)), or(a,b)\<close>. The representative is the
  negated disjunction, neither disjunct is marked present, and \<open>check\<close> returns true: the
  disjunction itself is a clause literal, and the test of lines 153 to 155 comes first.
\<close>

theorem check_not_or_equiv_counterexample:
  "select_main [Not_e (Or_e [atom_a, atom_b]), Or_e [atom_a, atom_b]]
     = Inr (Some (Not_e (Or_e [atom_a, atom_b]))) \<and>
   list_all
     (is_marked (fold mark [Not_e (Or_e [atom_a, atom_b]), Or_e [atom_a, atom_b]] fresh_scope))
     [atom_a, atom_b] = False \<and>
   check [Not_e (Or_e [atom_a, atom_b]), Or_e [atom_a, atom_b]] clean_store
     = Inr (True, clean_store)"
proof -
  have sel: "select_main [Not_e (Or_e [atom_a, atom_b]), Or_e [atom_a, atom_b]]
     = Inr (Some (Not_e (Or_e [atom_a, atom_b])))"
    by (simp add: eval_simps)
  show ?thesis
    unfolding check_Not [OF sel]
    by (simp add: eval_simps)
qed

text \<open>
  Claim C9, amended. When the representative literal is \<open>not(or(b1..bn))\<close>, \<open>check\<close>
  returns true exactly when some clause literal is \<open>equiv\<close> to the disjunction or every
  disjunct is marked present; when no clause literal is \<open>equiv\<close> to the disjunction, it
  returns true exactly when every disjunct is marked present, and false as soon as one
  disjunct is absent. The block of lines 168 to 176 always returns. The clause literals
  are recorded there with the plain mark: a term is marked exactly when it is a clause
  literal, and no complement is attested.
\<close>

theorem check_not_or_rule:
  "(select_main jst = Inr (Some (Not_e (Or_e bs))) \<longrightarrow>
      check jst clean_store =
        Inr (list_ex (equiv_expr (Or_e bs)) jst \<or> list_all (is_marked (fold mark jst fresh_scope)) bs,
             clean_store)) \<and>
   (select_main jst = Inr (Some (Not_e (Or_e bs))) \<and> \<not> list_ex (equiv_expr (Or_e bs)) jst \<longrightarrow>
      check jst clean_store = Inr (list_all (is_marked (fold mark jst fresh_scope)) bs, clean_store)) \<and>
   (select_main jst = Inr (Some (Not_e (Or_e (pre @ b # post)))) \<and>
    \<not> list_ex (equiv_expr (Or_e (pre @ b # post))) jst \<and> \<not> is_marked (fold mark jst fresh_scope) b \<longrightarrow>
      check jst clean_store = Inr (False, clean_store)) \<and>
   not_or_block (Or_e bs) jst clean_store =
     Inr (Some (list_all (is_marked (fold mark jst fresh_scope)) bs), clean_store) \<and>
   is_marked (fold mark jst fresh_scope) e = (e \<in> set jst) \<and>
   \<not> is_complement (fold mark jst fresh_scope) e"
proof -
  have rule: "check jst clean_store =
        Inr (list_ex (equiv_expr (Or_e cs)) jst \<or> list_all (is_marked (fold mark jst fresh_scope)) cs,
             clean_store)"
    if "select_main jst = Inr (Some (Not_e (Or_e cs)))" for cs
    using check_Not [OF that] by (simp add: Let_def del: equiv_expr.simps)
  have block: "not_or_block (Or_e bs) jst clean_store =
     Inr (Some (list_all (is_marked (fold mark jst fresh_scope)) bs), clean_store)"
    by (simp add: not_or_block_def scoped_mark_clean)
  have absent: "check jst clean_store = Inr (False, clean_store)"
    if "select_main jst = Inr (Some (Not_e (Or_e (pre @ b # post))))"
      "\<not> list_ex (equiv_expr (Or_e (pre @ b # post))) jst"
      "\<not> is_marked (fold mark jst fresh_scope) b"
    using rule [OF that(1)] that(2,3) by (simp del: equiv_expr.simps)
  show ?thesis
    using rule block absent by (simp add: marked_simps del: equiv_expr.simps)
qed

theorem check_not_or_rule_witness:
  "check [Not_e (Or_e [atom_a, atom_b]), atom_a, atom_b] clean_store = Inr (True, clean_store) \<and>
   check [Not_e (Or_e [atom_a, atom_b]), atom_b] clean_store = Inr (False, clean_store) \<and>
   check [Not_e (Or_e [atom_a, atom_b]), Not_e atom_a, atom_b] clean_store
     = Inr (False, clean_store) \<and>
   check [Or_e [atom_a, atom_b], Not_e (Or_e [atom_a, atom_b])] clean_store
     = Inr (True, clean_store)"
  using check_not_or_rule
          [where jst = "[Not_e (Or_e [atom_a, atom_b]), atom_a, atom_b]"
             and bs = "[atom_a, atom_b]"]
        check_not_or_rule
          [where jst = "[Not_e (Or_e [atom_a, atom_b]), atom_b]"
             and bs = "[atom_a, atom_b]" and pre = "[]" and b = atom_a and post = "[atom_b]"]
        check_not_or_rule
          [where jst = "[Not_e (Or_e [atom_a, atom_b]), Not_e atom_a, atom_b]"
             and bs = "[atom_a, atom_b]" and pre = "[]" and b = atom_a and post = "[atom_b]"]
        check_not_or_rule
          [where jst = "[Or_e [atom_a, atom_b], Not_e (Or_e [atom_a, atom_b])]"
             and bs = "[atom_a, atom_b]"]
  by (simp add: eval_simps)

section \<open>C10: a negation whose argument is a clause literal\<close>

text \<open>
  Claim C10. When the representative literal is a negation \<open>not(a)\<close> and some clause
  literal is \<open>equiv\<close> to \<open>a\<close>, \<open>check\<close> returns true, whatever the shape of \<open>a\<close>. The
  test comes first in the block for negations: that block returns true as soon as the test
  succeeds, before any rule for the shape of \<open>a\<close> is tried. A clause with both
  \<open>not(and(c,d))\<close> and \<open>and(c,d)\<close> is accepted, in either order.
\<close>

theorem check_not_equiv_first:
  "(select_main jst = Inr (Some (Not_e a)) \<and> list_ex (equiv_expr a) jst \<longrightarrow>
      check jst clean_store = Inr (True, clean_store)) \<and>
   (select_main jst = Inr (Some (Not_e a)) \<and> a \<in> set jst \<longrightarrow>
      check jst clean_store = Inr (True, clean_store)) \<and>
   (list_ex (equiv_expr a) jst \<longrightarrow>
      not_block (Not_e a) jst clean_store = Inr (Some True, clean_store)) \<and>
   check [Not_e (And_e [c, d]), And_e [c, d]] clean_store = Inr (True, clean_store) \<and>
   check [And_e [c, d], Not_e (And_e [c, d])] clean_store = Inr (True, clean_store)"
proof -
  have first: "check j clean_store = Inr (True, clean_store)"
    if "select_main j = Inr (Some (Not_e e))" "list_ex (equiv_expr e) j" for j e
    using check_Not [OF that(1)] that(2) by (simp add: Let_def del: equiv_expr.simps)
  have mem: "list_ex (equiv_expr e) j" if "e \<in> set j" for e j
    using that by (auto simp: list_ex_iff)
  have block: "not_block (Not_e a) jst clean_store = Inr (Some True, clean_store)"
    if "list_ex (equiv_expr a) jst"
    using that by (simp add: not_block_def not_equiv_block_def del: equiv_expr.simps)
  have sel: "select_main [Not_e (And_e [c, d]), And_e [c, d]] = Inr (Some (Not_e (And_e [c, d])))"
    "select_main [And_e [c, d], Not_e (And_e [c, d])] = Inr (Some (Not_e (And_e [c, d])))"
    by (simp_all add: select_main_def select_loop_Cons)
  have "check [Not_e (And_e [c, d]), And_e [c, d]] clean_store = Inr (True, clean_store)"
    by (rule first [OF sel(1)]) simp
  moreover have "check [And_e [c, d], Not_e (And_e [c, d])] clean_store = Inr (True, clean_store)"
    by (rule first [OF sel(2)]) simp
  ultimately show ?thesis
    using first mem block by blast
qed

theorem check_not_equiv_first_witness:
  "check [Not_e (Or_e [atom_a, atom_b]),
          Or_e [atom_a, atom_b]] clean_store = Inr (True, clean_store) \<and>
   not_or_block (Or_e [atom_a, atom_b])
         [Not_e (Or_e [atom_a, atom_b]),
          Or_e [atom_a, atom_b]] clean_store = Inr (Some False, clean_store) \<and>
   not_block (Not_e (Or_e [atom_a, atom_b]))
         [Not_e (Or_e [atom_a, atom_b]),
          Or_e [atom_a, atom_b]] clean_store = Inr (Some True, clean_store)"
  using check_not_equiv_first
          [where jst = "[Not_e (Or_e [atom_a, atom_b]),
                         Or_e [atom_a, atom_b]]"
             and a = "Or_e [atom_a, atom_b]"]
  by (simp add: eval_simps not_or_block_def scoped_mark_clean)

end
